theory Spec2Isabelle
  imports Main "HOL-Library.AList"
begin

section \<open>The configuration language of config_parser.py\<close>

text \<open>
  A shallow embedding of \<^verbatim>\<open>ConfigParser\<close> (src/config_parser.py): the lexer
  \<^verbatim>\<open>tokenize\<close>, the recursive-descent parser, the substitution of variable
  references and the conversion to plain Python values.

  Conventions of the embedding.
  \<^item> A Python \<^verbatim>\<open>str\<close> is a \<open>string\<close>; a character is a code point below 256.
  \<^item> A raised exception is \<open>Inl\<close> of an \<open>error\<close>; a \<^verbatim>\<open>SyntaxError\<close> carries the
    line number that its message interpolates, when it interpolates one.
  \<^item> The Python builtins the code calls on floats and strings (\<^verbatim>\<open>float(s)\<close>,
    \<^verbatim>\<open>str(x)\<close> of a float, \<^verbatim>\<open>repr(s)\<close> of a string) are not part of the
    repository; they are the fields of a parameter of type \<open>'f builtins\<close>, where
    \<open>'f\<close> is the type of floats.
  \<^item> The two resolver functions recurse through the variable table and need not
    terminate on a cyclic table; Python then raises \<^verbatim>\<open>RecursionError\<close>. Their
    models take the number of nested calls that are still allowed.
\<close>

subsection \<open>Values, tokens, errors\<close>

datatype 'f ConfigValue =
    NumberValue 'f
  | StringValue string bool
  | ListValue "'f ConfigValue list"
  | TableValue "(string \<times> 'f ConfigValue) list"
  | VarRefValue string

text \<open>
  A token is the tuple \<^verbatim>\<open>(kind, payload, line)\<close>. The lexer pairs every kind with
  one shape of payload, so kind and payload are one value here: \<open>NUMBER x\<close> is
  \<^verbatim>\<open>('NUMBER', x, _)\<close>, \<open>STRING s\<close> is \<^verbatim>\<open>('STRING', s, _)\<close>, \<open>ID s\<close> is
  \<^verbatim>\<open>('ID', s, _)\<close>, \<open>VAR\<close> is \<^verbatim>\<open>('VAR', 'var', _)\<close> (likewise \<open>LIST\<close>, \<open>TABLE\<close>)
  and \<open>SYM c\<close> is \<^verbatim>\<open>(c, c, _)\<close>.
\<close>

datatype 'f lexeme = NUMBER 'f | STRING string | ID string | VAR | LIST | TABLE | SYM char

datatype 'f token = Token (lexeme: "'f lexeme") (line: nat)

text \<open>
  \<^verbatim>\<open>token[1]\<close> as far as the parser uses it: compared with a one-character string.
  A float payload is equal to no string.
\<close>

fun payload :: "'f lexeme \<Rightarrow> string option" where
  "payload (NUMBER x) = None"
| "payload (STRING s) = Some s"
| "payload (ID s) = Some s"
| "payload VAR = Some ''var''"
| "payload LIST = Some ''list''"
| "payload TABLE = Some ''table''"
| "payload (SYM c) = Some [c]"

datatype error = SyntaxError "nat option" | NameError | IndexError | RecursionError

record 'f builtins =
  float_of :: "string \<Rightarrow> 'f"
  str_of_float :: "'f \<Rightarrow> string"
  repr_of_str :: "string \<Rightarrow> string"

subsection \<open>Character classes and the regular expressions of the lexer\<close>

text \<open>\<^verbatim>\<open>str.isspace\<close> on the code points below 256.\<close>

definition isspace :: "char \<Rightarrow> bool" where
  "isspace c = (of_char c \<in> {9, 10, 11, 12, 13, 28, 29, 30, 31, 32, 133, 160 :: nat})"

text \<open>
  \<^verbatim>\<open>\d\<close>: below 256 the decimal digits are \<^verbatim>\<open>0\<close> to \<^verbatim>\<open>9\<close>, the code points
  48 to 57.
\<close>

definition isdigit :: "char \<Rightarrow> bool" where
  "isdigit c = (48 \<le> (of_char c :: nat) \<and> (of_char c :: nat) \<le> 57)"

text \<open>
  \<^verbatim>\<open>[a-zA-Z]\<close> (the code points 97 to 122 and 65 to 90) and \<^verbatim>\<open>[_a-zA-Z0-9]\<close>.
\<close>

definition isletter :: "char \<Rightarrow> bool" where
  "isletter c = ((97 \<le> (of_char c :: nat) \<and> (of_char c :: nat) \<le> 122) \<or>
                 (65 \<le> (of_char c :: nat) \<and> (of_char c :: nat) \<le> 90))"

definition isidchar :: "char \<Rightarrow> bool" where
  "isidchar c = (c = CHR ''_'' \<or> isletter c \<or> isdigit c)"

text \<open>
  \<^verbatim>\<open>re.match(r'[+-]?\d+\.\d+', s)\<close>: the matched text, if any. The three parts match
  disjoint sets of characters, so the greedy match is the only candidate.
\<close>

definition num_match :: "string \<Rightarrow> string option" where
  "num_match s =
     (let sign = (case s of [] \<Rightarrow> [] | c # _ \<Rightarrow> if c = CHR ''+'' \<or> c = CHR ''-'' then [c] else []);
          s1 = drop (length sign) s;
          int_part = takeWhile isdigit s1;
          s2 = dropWhile isdigit s1
      in if int_part = [] then None
         else (case s2 of
                 [] \<Rightarrow> None
               | c # s3 \<Rightarrow>
                   if c = CHR ''.'' \<and> takeWhile isdigit s3 \<noteq> []
                   then Some (sign @ int_part @ [c] @ takeWhile isdigit s3)
                   else None))"

text \<open>\<^verbatim>\<open>re.match(r'[a-zA-Z][_a-zA-Z0-9]*', s)\<close>: the matched text, if any.\<close>

definition id_match :: "string \<Rightarrow> string option" where
  "id_match s =
     (case s of
        [] \<Rightarrow> None
      | c # cs \<Rightarrow> if isletter c then Some (c # takeWhile isidchar cs) else None)"

text \<open>
  \<^verbatim>\<open>text.find(pat, i)\<close> seen from the suffix \<^verbatim>\<open>text[i:]\<close>: the suffix that starts
  at the first occurrence of \<open>pat\<close>, or \<open>None\<close> for \<^verbatim>\<open>-1\<close>.
\<close>

fun find_from :: "string \<Rightarrow> string \<Rightarrow> string option" where
  "find_from pat [] = (if pat = [] then Some [] else None)"
| "find_from pat (c # cs) =
     (if take (length pat) (c # cs) = pat then Some (c # cs) else find_from pat cs)"

subsection \<open>The lexer\<close>

text \<open>
  \<^verbatim>\<open>tokenize\<close>, one loop iteration per equation: the first argument is
  \<^verbatim>\<open>text[i:]\<close>, the second \<^verbatim>\<open>self.current_line\<close>, the third \<^verbatim>\<open>tokens\<close>. It
  returns the tokens and the line counter it leaves in the instance.
\<close>

function tokenize_loop ::
  "'f builtins \<Rightarrow> string \<Rightarrow> nat \<Rightarrow> 'f token list \<Rightarrow> error + ('f token list \<times> nat)" where
  "tokenize_loop B [] ln toks = Inr (toks, ln)"
| "tokenize_loop B (c # cs) ln toks =
     (if isspace c then
        tokenize_loop B cs (if c = CHR ''\<newline>'' then ln + 1 else ln) toks
      else if take 2 (c # cs) = ''::'' then
        (case find_from ''\<newline>'' (c # cs) of
           None \<Rightarrow> Inr (toks, ln)
         | Some rest \<Rightarrow> tokenize_loop B rest ln toks)
      else if take 3 (c # cs) = ''{{!'' then
        (case find_from ''!}}'' (c # cs) of
           None \<Rightarrow> Inr (toks, ln)
         | Some rest \<Rightarrow> tokenize_loop B (drop 3 rest) ln toks)
      else
        (case num_match (c # cs) of
           Some m \<Rightarrow>
             tokenize_loop B (drop (length m) (c # cs)) ln
               (toks @ [Token (NUMBER (float_of B m)) ln])
         | None \<Rightarrow>
             if take 2 (c # cs) = ''@\"'' then
               (case find_from ''\"'' (drop 2 (c # cs)) of
                  None \<Rightarrow> Inl (SyntaxError (Some ln))
                | Some rest \<Rightarrow>
                    tokenize_loop B (drop 1 rest) ln
                      (toks @ [Token (STRING (takeWhile (\<lambda>x. x \<noteq> CHR ''\"'') (drop 2 (c # cs)))) ln]))
             else
               (case id_match (c # cs) of
                  Some m \<Rightarrow>
                    tokenize_loop B (drop (length m) (c # cs)) ln
                      (toks @ [Token (if m = ''var'' then VAR
                                      else if m = ''list'' then LIST
                                      else if m = ''table'' then TABLE
                                      else ID m) ln])
                | None \<Rightarrow>
                    if c \<in> set ''()[],=$;'' then
                      tokenize_loop B cs ln (toks @ [Token (SYM c) ln])
                    else Inl (SyntaxError (Some ln)))))"
  by pat_completeness auto

lemma find_from_length: "find_from pat s = Some r \<Longrightarrow> length r \<le> length s"
  by (induction s) (auto split: if_splits)

lemma find_from_prefix: "find_from pat s = Some r \<Longrightarrow> take (length pat) r = pat"
  by (induction s) (auto split: if_splits)

lemma find_from_ge: "find_from pat s = Some r \<Longrightarrow> length pat \<le> length r"
proof -
  assume "find_from pat s = Some r"
  then have "take (length pat) r = pat" by (rule find_from_prefix)
  then have "length pat = min (length r) (length pat)" by (metis length_take)
  then show ?thesis by simp
qed

lemma find_from_Cons:
  "find_from pat (c # cs) = Some r \<Longrightarrow> r = c # cs \<or> length r \<le> length cs"
  by (auto split: if_splits dest: find_from_length)

lemma num_match_nonempty: "num_match s = Some m \<Longrightarrow> m \<noteq> []"
  by (auto simp: num_match_def Let_def split: list.splits if_splits)

lemma id_match_nonempty: "id_match s = Some m \<Longrightarrow> m \<noteq> []"
  by (auto simp: id_match_def split: list.splits if_splits)

termination tokenize_loop
  apply (relation "measure (\<lambda>(B, s, ln, toks). length s)")
  apply simp
  apply simp
  subgoal for B c cs ln toks rest
    using find_from_Cons[of "''\<newline>''" c cs rest]
      find_from_prefix[of "''\<newline>''" "c # cs" rest]
    by auto
  subgoal for B c cs ln toks rest
    using find_from_ge[of "''!}}''" "c # cs" rest] find_from_length[of "''!}}''" "c # cs" rest]
    by auto
  subgoal for B c cs ln toks rest
    using find_from_length[of "''\"''" "drop 2 (c # cs)" rest] by auto
  subgoal by simp
  subgoal for B c cs ln toks m
    using id_match_nonempty[of "c # cs" m] by (cases m) auto
  subgoal for B c cs ln toks m
    using num_match_nonempty[of "c # cs" m] by (cases m) auto
  done

subsection \<open>The parser\<close>

text \<open>
  The parser reads \<^verbatim>\<open>self.tokens\<close> at \<^verbatim>\<open>self.pos\<close>. The parsing methods below take the
  token list and the position and return the value with the new position; they change
  nothing else of the instance.

  \<open>raise_at toks i\<close> is \<^verbatim>\<open>raise SyntaxError(f'... {self.tokens[i][2]}')\<close>: the message
  is built first, so an index past the end raises \<^verbatim>\<open>IndexError\<close> instead. Every index
  \<^verbatim>\<open>self.pos - 1\<close> is taken after an increment of \<^verbatim>\<open>self.pos\<close>, so it is never negative.
\<close>

definition raise_at :: "'f token list \<Rightarrow> nat \<Rightarrow> error" where
  "raise_at toks i =
     (if i < length toks then SyntaxError (Some (line (toks ! i))) else IndexError)"

text \<open>
  The three tests the parser makes on the current token:
  \<^verbatim>\<open>self.pos < len(self.tokens) and self.tokens[self.pos][1] == s\<close>, the same with
  \<^verbatim>\<open>!=\<close>, and (for \<open>tok_id\<close>) that the token exists and is of kind \<^verbatim>\<open>'ID'\<close>, with its
  payload.
\<close>

definition tok_is :: "'f token list \<Rightarrow> nat \<Rightarrow> string \<Rightarrow> bool" where
  "tok_is toks p s = (p < length toks \<and> payload (lexeme (toks ! p)) = Some s)"

definition tok_isnt :: "'f token list \<Rightarrow> nat \<Rightarrow> string \<Rightarrow> bool" where
  "tok_isnt toks p s = (p < length toks \<and> payload (lexeme (toks ! p)) \<noteq> Some s)"

definition tok_id :: "'f token list \<Rightarrow> nat \<Rightarrow> string option" where
  "tok_id toks p =
     (if p < length toks then (case lexeme (toks ! p) of ID name \<Rightarrow> Some name | _ \<Rightarrow> None)
      else None)"

definition parse_var_reference ::
  "'f token list \<Rightarrow> nat \<Rightarrow> error + ('f ConfigValue \<times> nat)" where
  "parse_var_reference toks p =
     (case tok_id toks (p + 1) of
        None \<Rightarrow> Inl (raise_at toks (p + 1 - 1))
      | Some var_name \<Rightarrow>
          if tok_is toks (p + 2) ''.'' then Inl (raise_at toks (p + 2))
          else if \<not> tok_is toks (p + 2) ''$'' then Inl (raise_at toks (p + 2 - 1))
          else Inr (VarRefValue var_name, p + 3))"

text \<open>
  \<^verbatim>\<open>parse_value\<close>, \<^verbatim>\<open>parse_list\<close> and \<^verbatim>\<open>parse_table\<close>; the two \<^verbatim>\<open>while\<close> loops are
  \<open>parse_list_loop\<close> and \<open>parse_table_loop\<close>, whose last argument is \<^verbatim>\<open>values\<close> or
  \<^verbatim>\<open>items\<close>. A dictionary is an association list in insertion order; \<^verbatim>\<open>d[k] = v\<close> is
  \<open>AList.update k v\<close>, which replaces in place or appends.
\<close>

function parse_value :: "'f token list \<Rightarrow> nat \<Rightarrow> error + ('f ConfigValue \<times> nat)"
  and parse_list :: "'f token list \<Rightarrow> nat \<Rightarrow> error + ('f ConfigValue \<times> nat)"
  and parse_list_loop ::
    "'f token list \<Rightarrow> nat \<Rightarrow> 'f ConfigValue list \<Rightarrow> error + ('f ConfigValue \<times> nat)"
  and parse_table :: "'f token list \<Rightarrow> nat \<Rightarrow> error + ('f ConfigValue \<times> nat)"
  and parse_table_loop ::
    "'f token list \<Rightarrow> nat \<Rightarrow> (string \<times> 'f ConfigValue) list \<Rightarrow> error + ('f ConfigValue \<times> nat)"
where
  "parse_value toks p =
     (if p \<ge> length toks then Inl (SyntaxError None)
      else (case lexeme (toks ! p) of
              NUMBER x \<Rightarrow> Inr (NumberValue x, p + 1)
            | STRING s \<Rightarrow> Inr (StringValue s (CHR ''$'' \<in> set s), p + 1)
            | LIST \<Rightarrow> parse_list toks p
            | TABLE \<Rightarrow> parse_table toks p
            | SYM c \<Rightarrow>
                if c = CHR ''$'' then parse_var_reference toks p
                else Inl (SyntaxError (Some (line (toks ! p))))
            | _ \<Rightarrow> Inl (SyntaxError (Some (line (toks ! p))))))"
| "parse_list toks p =
     (if \<not> tok_is toks (p + 1) ''('' then Inl (raise_at toks (p + 1 - 1))
      else if tok_is toks (p + 2) '')'' then Inr (ListValue [], p + 3)
      else parse_list_loop toks (p + 2) [])"
| "parse_list_loop toks p values =
     (if tok_isnt toks p '')'' then
        (case parse_value toks p of
           Inl e \<Rightarrow> Inl e
         | Inr (v, p') \<Rightarrow>
             if tok_is toks p' '','' then parse_list_loop toks (p' + 1) (values @ [v])
             else if tok_isnt toks p' '')'' then Inl (raise_at toks p')
             else parse_list_loop toks p' (values @ [v]))
      else if \<not> tok_is toks p '')'' then Inl (raise_at toks (p - 1))
      else Inr (ListValue values, p + 1))"
| "parse_table toks p =
     (if \<not> tok_is toks (p + 1) ''('' then Inl (raise_at toks (p + 1 - 1))
      else if \<not> tok_is toks (p + 2) ''['' then Inl (raise_at toks (p + 2 - 1))
      else if tok_is toks (p + 3) '']'' then Inr (TableValue [], p + 5)
      else parse_table_loop toks (p + 3) [])"
| "parse_table_loop toks p items =
     (if tok_isnt toks p '']'' then
        (case tok_id toks p of
           None \<Rightarrow> Inl (raise_at toks (p - 1))
         | Some key \<Rightarrow>
             if \<not> tok_is toks (p + 1) ''='' then Inl (raise_at toks (p + 1 - 1))
             else (case parse_value toks (p + 2) of
                     Inl e \<Rightarrow> Inl e
                   | Inr (v, p') \<Rightarrow>
                       if tok_is toks p' '','' then
                         parse_table_loop toks (p' + 1) (AList.update key v items)
                       else if tok_isnt toks p' '']'' then Inl (raise_at toks p')
                       else parse_table_loop toks p' (AList.update key v items)))
      else if \<not> tok_is toks p '']'' then Inl (raise_at toks (p - 1))
      else if \<not> tok_is toks (p + 1) '')'' then Inl (raise_at toks (p + 1 - 1))
      else Inr (TableValue items, p + 2))"
  by pat_completeness auto


text \<open>Every successful call consumes at least one token; the loops therefore end.\<close>

lemma parse_progress:
  "parse_value_parse_list_parse_list_loop_parse_table_parse_table_loop_dom (Inl (Inl (toks, p)))
     \<Longrightarrow> \<forall>v q. parse_value toks p = Inr (v, q) \<longrightarrow> p < q"
  "parse_value_parse_list_parse_list_loop_parse_table_parse_table_loop_dom (Inl (Inr (toks, p)))
     \<Longrightarrow> \<forall>v q. parse_list toks p = Inr (v, q) \<longrightarrow> p < q"
  "parse_value_parse_list_parse_list_loop_parse_table_parse_table_loop_dom (Inr (Inl (toks, p, values)))
     \<Longrightarrow> \<forall>v q. parse_list_loop toks p values = Inr (v, q) \<longrightarrow> p < q"
  "parse_value_parse_list_parse_list_loop_parse_table_parse_table_loop_dom (Inr (Inr (Inl (toks, p))))
     \<Longrightarrow> \<forall>v q. parse_table toks p = Inr (v, q) \<longrightarrow> p < q"
  "parse_value_parse_list_parse_list_loop_parse_table_parse_table_loop_dom (Inr (Inr (Inr (toks, p, items))))
     \<Longrightarrow> \<forall>v q. parse_table_loop toks p items = Inr (v, q) \<longrightarrow> p < q"
proof (induct rule: parse_value_parse_list_parse_list_loop_parse_table_parse_table_loop.pinduct)
  case (1 toks p)
  then show ?case
    by (auto simp: parse_value.psimps parse_var_reference_def
        split: if_splits lexeme.splits option.splits)
next
  case (2 toks p)
  then show ?case
    by (auto simp: parse_list.psimps split: if_splits)
next
  case (3 toks p vs)
  show ?case
  proof (intro allI impI)
    fix v q
    assume r: "parse_list_loop toks p vs = Inr (v, q)"
    show "p < q"
    proof (cases "tok_isnt toks p '')''")
      case False
      with r 3(1) show ?thesis
        by (auto simp: parse_list_loop.psimps split: if_splits)
    next
      case True
      with r 3(1) obtain x y where pv: "parse_value toks p = Inr (x, y)"
        by (auto simp: parse_list_loop.psimps split: sum.splits)
      from 3(2)[OF True] pv have py: "p < y" by blast
      show ?thesis
      proof (cases "tok_is toks y '',''")
        case c: True
        with r 3(1) True pv have "parse_list_loop toks (y + 1) (vs @ [x]) = Inr (v, q)"
          by (simp add: parse_list_loop.psimps)
        with 3(3)[OF True pv refl c] py show ?thesis by fastforce
      next
        case c: False
        with r 3(1) True pv have d: "\<not> tok_isnt toks y '')''"
          and "parse_list_loop toks y (vs @ [x]) = Inr (v, q)"
          by (auto simp: parse_list_loop.psimps split: if_splits)
        with 3(4)[OF True pv refl c d] py show ?thesis by fastforce
      qed
    qed
  qed
next
  case (4 toks p)
  then show ?case
    by (auto simp: parse_table.psimps split: if_splits)
next
  case (5 toks p items)
  show ?case
  proof (intro allI impI)
    fix v q
    assume r: "parse_table_loop toks p items = Inr (v, q)"
    show "p < q"
    proof (cases "tok_isnt toks p '']''")
      case False
      with r 5(1) show ?thesis
        by (auto simp: parse_table_loop.psimps split: if_splits)
    next
      case True
      with r 5(1) obtain key where k: "tok_id toks p = Some key"
        by (auto simp: parse_table_loop.psimps split: option.splits)
      with r 5(1) True have e: "\<not> \<not> tok_is toks (p + 1) ''=''"
        by (auto simp: parse_table_loop.psimps split: if_splits)
      with r 5(1) True k obtain x y where pv: "parse_value toks (p + 2) = Inr (x, y)"
        by (auto simp: parse_table_loop.psimps split: sum.splits)
      from 5(2)[OF True k e] pv have py: "p + 2 < y" by blast
      show ?thesis
      proof (cases "tok_is toks y '',''")
        case c: True
        with r 5(1) True k e pv
        have "parse_table_loop toks (y + 1) (AList.update key x items) = Inr (v, q)"
          by (simp add: parse_table_loop.psimps)
        with 5(3)[OF True k e pv refl c] py show ?thesis by fastforce
      next
        case c: False
        with r 5(1) True k e pv have d: "\<not> tok_isnt toks y '']''"
          and "parse_table_loop toks y (AList.update key x items) = Inr (v, q)"
          by (auto simp: parse_table_loop.psimps split: if_splits)
        with 5(4)[OF True k e pv refl c d] py show ?thesis by fastforce
      qed
    qed
  qed
qed

lemma parse_dom:
  "parse_value_parse_list_parse_list_loop_parse_table_parse_table_loop_dom x"
proof -
  have "All parse_value_parse_list_parse_list_loop_parse_table_parse_table_loop_dom"
    apply (relation "measure (\<lambda>x. case x of
        Inl (Inl (toks, p)) \<Rightarrow> 3 * (length toks - p) + 1
      | Inl (Inr (toks, p)) \<Rightarrow> 3 * (length toks - p)
      | Inr (Inl (toks, p, values)) \<Rightarrow> 3 * (length toks - p) + 2
      | Inr (Inr (Inl (toks, p))) \<Rightarrow> 3 * (length toks - p)
      | Inr (Inr (Inr (toks, p, items))) \<Rightarrow> 3 * (length toks - p) + 2)")
    apply (auto simp: tok_is_def tok_isnt_def dest: parse_progress(1))
    done
  then show ?thesis by (rule spec)
qed

termination parse_value
  by (simp add: parse_dom)

declare parse_value.simps [simp del] parse_list.simps [simp del]
  parse_list_loop.simps [simp del] parse_table.simps [simp del]
  parse_table_loop.simps [simp del]

lemma parse_value_progress:
  assumes "parse_value toks p = Inr (v, q)"
  shows "p < q"
proof -
  have "\<forall>v q. parse_value toks p = Inr (v, q) \<longrightarrow> p < q"
    by (rule parse_progress(1)) (rule parse_dom)
  with assms show ?thesis by simp
qed


subsection \<open>The parser instance and the top-level loop\<close>

text \<open>
  The attributes of a \<^verbatim>\<open>ConfigParser\<close>, with the values \<^verbatim>\<open>__init__\<close> gives them. The
  dictionary \<^verbatim>\<open>self.variables\<close> is an association list in insertion order.
\<close>

record 'f parser =
  variables :: "(string \<times> 'f ConfigValue) list"
  pos :: nat
  tokens :: "'f token list"
  current_line :: nat

definition init :: "'f parser" where
  "init = \<lparr>variables = [], pos = 0, tokens = [], current_line = 1\<rparr>"

text \<open>
  \<^verbatim>\<open>parse_var_declaration\<close>. The source stores the value before it tests for \<^verbatim>\<open>;\<close>; when
  the test raises, the exception leaves \<^verbatim>\<open>parse\<close> and the instance is not looked at again
  here, so the model returns the error alone.
\<close>

definition parse_var_declaration :: "'f parser \<Rightarrow> error + 'f parser" where
  "parse_var_declaration st =
     (case tok_id (tokens st) (pos st + 1) of
        None \<Rightarrow> Inl (raise_at (tokens st) (pos st + 1 - 1))
      | Some var_name \<Rightarrow>
          if \<not> tok_is (tokens st) (pos st + 2) ''='' then
            Inl (raise_at (tokens st) (pos st + 2 - 1))
          else (case parse_value (tokens st) (pos st + 3) of
                  Inl e \<Rightarrow> Inl e
                | Inr (v, p') \<Rightarrow>
                    if \<not> tok_is (tokens st) p' '';'' then Inl (raise_at (tokens st) (p' - 1))
                    else Inr (st\<lparr>variables := AList.update var_name v (variables st),
                                 pos := p' + 1\<rparr>)))"

lemma parse_var_declaration_progress:
  assumes "parse_var_declaration st = Inr st'"
  shows "tokens st' = tokens st \<and> pos st < pos st'"
proof (cases "tok_id (tokens st) (pos st + 1)")
  case None
  with assms show ?thesis by (simp add: parse_var_declaration_def)
next
  case (Some name)
  show ?thesis
  proof (cases "parse_value (tokens st) (pos st + 3)")
    case (Inl e)
    with assms Some show ?thesis
      by (simp add: parse_var_declaration_def split: if_splits)
  next
    case (Inr r)
    obtain v p' where r: "r = (v, p')" by (cases r)
    from Inr r have "pos st + 3 < p'" by (simp add: parse_value_progress)
    with assms Some Inr r show ?thesis
      by (auto simp: parse_var_declaration_def split: if_splits)
  qed
qed

text \<open>
  The \<^verbatim>\<open>while\<close> loop of \<^verbatim>\<open>parse\<close>: a declaration at every \<^verbatim>\<open>var\<close> token, every other
  token skipped.
\<close>

function parse_loop :: "'f parser \<Rightarrow> error + 'f parser" where
  "parse_loop st =
     (if pos st < length (tokens st) then
        (if lexeme (tokens st ! pos st) = VAR then
           (case parse_var_declaration st of
              Inl e \<Rightarrow> Inl e
            | Inr st' \<Rightarrow> parse_loop st')
         else parse_loop (st\<lparr>pos := pos st + 1\<rparr>))
      else Inr st)"
  by pat_completeness auto

termination parse_loop
proof (relation "measure (\<lambda>st. length (tokens st) - pos st)", goal_cases)
  case 1
  show ?case by simp
next
  case (2 st st')
  from parse_var_declaration_progress[OF 2(3)]
  have "tokens st' = tokens st" and "pos st < pos st'" by simp_all
  with 2(1) show ?case by (simp add: diff_less_mono2)
next
  case (3 st)
  then show ?case by simp
qed

declare parse_loop.simps [simp del]


subsection \<open>The regular expressions and string operations of the resolver\<close>

text \<open>
  \<^verbatim>\<open>re.match(r'^[a-zA-Z][_a-zA-Z0-9]*$', s)\<close> as a truth value. In Python \<^verbatim>\<open>$\<close> also
  matches before a newline that ends the string.
\<close>

definition valid_name :: "string \<Rightarrow> bool" where
  "valid_name s =
     (case s of
        [] \<Rightarrow> False
      | c # cs \<Rightarrow> isletter c \<and> dropWhile isidchar cs \<in> {[], ''\<newline>''})"

text \<open>
  \<^verbatim>\<open>re.findall(r'\$([^$\n]+?)\$', s)\<close>: the captured groups of the matches, found from
  left to right without overlap. \<open>inref\<close> is the class \<^verbatim>\<open>[^$\n]\<close>. The class excludes
  \<^verbatim>\<open>$\<close>, so a match that starts at a \<^verbatim>\<open>$\<close> ends at the next \<^verbatim>\<open>$\<close>, and there is one
  only if the characters between are in the class and are at least one.
\<close>

definition inref :: "char \<Rightarrow> bool" where
  "inref c = (c \<noteq> CHR ''$'' \<and> c \<noteq> CHR ''\<newline>'')"

function findall :: "string \<Rightarrow> string list" where
  "findall [] = []"
| "findall (c # cs) =
     (if c = CHR ''$'' \<and> takeWhile inref cs \<noteq> [] \<and> take 1 (dropWhile inref cs) = ''$''
      then takeWhile inref cs # findall (drop 1 (dropWhile inref cs))
      else findall cs)"
  by pat_completeness auto

termination findall
proof (relation "measure length", goal_cases)
  case (2 c cs)
  have "length (dropWhile inref cs) \<le> length cs" by (rule length_dropWhile_le)
  then show ?case by simp
qed simp_all

text \<open>
  \<^verbatim>\<open>s.replace(old, new)\<close>: every occurrence of \<open>old\<close>, from left to right without
  overlap; between all characters and at both ends when \<open>old\<close> is empty.
\<close>

function replace_loop :: "string \<Rightarrow> string \<Rightarrow> string \<Rightarrow> string" where
  "replace_loop old new [] = []"
| "replace_loop old new (c # cs) =
     (if old \<noteq> [] \<and> take (length old) (c # cs) = old
      then new @ replace_loop old new (drop (length old) (c # cs))
      else c # replace_loop old new cs)"
  by pat_completeness auto

termination replace_loop
  by (relation "measure (\<lambda>(old, new, s). length s)") (auto simp: neq_Nil_conv)

definition replace :: "string \<Rightarrow> string \<Rightarrow> string \<Rightarrow> string" where
  "replace s old new =
     (if old = [] then new @ concat (map (\<lambda>c. c # new) s) else replace_loop old new s)"

text \<open>
  \<^verbatim>\<open>str\<close> of a list and of a dictionary of strings, from \<^verbatim>\<open>repr\<close> of a string.
\<close>

fun join :: "string \<Rightarrow> string list \<Rightarrow> string" where
  "join sep [] = []"
| "join sep [x] = x"
| "join sep (x # y # ys) = x @ sep @ join sep (y # ys)"

definition str_of_list :: "'f builtins \<Rightarrow> string list \<Rightarrow> string" where
  "str_of_list B xs = ''['' @ join '', '' (map (repr_of_str B) xs) @ '']''"

definition str_of_dict :: "'f builtins \<Rightarrow> (string \<times> string) list \<Rightarrow> string" where
  "str_of_dict B kvs =
     ''{'' @ join '', '' (map (\<lambda>(k, v). repr_of_str B k @ '': '' @ repr_of_str B v) kvs) @ ''}''"

text \<open>
  A comprehension over calls that may raise: the results in order, or the first exception.
\<close>

fun collect :: "(error + 'a) list \<Rightarrow> error + 'a list" where
  "collect [] = Inr []"
| "collect (Inl e # rs) = Inl e"
| "collect (Inr x # rs) = (case collect rs of Inl e \<Rightarrow> Inl e | Inr xs \<Rightarrow> Inr (x # xs))"

definition with_key :: "string \<Rightarrow> error + 'a \<Rightarrow> error + (string \<times> 'a)" where
  "with_key k r = (case r of Inl e \<Rightarrow> Inl e | Inr x \<Rightarrow> Inr (k, x))"

subsection \<open>The resolver\<close>

text \<open>
  \<^verbatim>\<open>get_string_value\<close>. The second argument is the number of nested calls still allowed;
  \<open>vars\<close> is \<^verbatim>\<open>self.variables\<close>. A \<^verbatim>\<open>StringValue\<close> gives its text as it stands.
\<close>

fun get_string_value ::
  "'f builtins \<Rightarrow> nat \<Rightarrow> (string \<times> 'f ConfigValue) list \<Rightarrow> 'f ConfigValue \<Rightarrow> error + string"
where
  "get_string_value B 0 vars v = Inl RecursionError"
| "get_string_value B (Suc d) vars (NumberValue x) = Inr (str_of_float B x)"
| "get_string_value B (Suc d) vars (StringValue s has_vars) = Inr s"
| "get_string_value B (Suc d) vars (VarRefValue name) =
     (case map_of vars name of
        Some v \<Rightarrow> get_string_value B d vars v
      | None \<Rightarrow> Inr (''$'' @ name @ ''$''))"
| "get_string_value B (Suc d) vars (ListValue vs) =
     (case collect (map (get_string_value B d vars) vs) of
        Inl e \<Rightarrow> Inl e
      | Inr xs \<Rightarrow> Inr (str_of_list B xs))"
| "get_string_value B (Suc d) vars (TableValue items) =
     (case collect (map (\<lambda>(k, v). with_key k (get_string_value B d vars v)) items) of
        Inl e \<Rightarrow> Inl e
      | Inr kvs \<Rightarrow> Inr (str_of_dict B kvs))"

text \<open>
  The \<^verbatim>\<open>for var_name in matches\<close> loop of \<^verbatim>\<open>substitute_vars_in_value\<close>; the last
  argument is \<^verbatim>\<open>result\<close>.
\<close>

fun substitute_matches ::
  "'f builtins \<Rightarrow> nat \<Rightarrow> (string \<times> 'f ConfigValue) list \<Rightarrow> string list \<Rightarrow> string
     \<Rightarrow> error + 'f ConfigValue"
where
  "substitute_matches B d vars [] result = Inr (StringValue result False)"
| "substitute_matches B d vars (var_name # matches) result =
     (if CHR ''.'' \<in> set var_name then Inl (SyntaxError None)
      else if \<not> valid_name var_name then Inl (SyntaxError None)
      else (case map_of vars var_name of
              Some v \<Rightarrow>
                (case get_string_value B d vars v of
                   Inl e \<Rightarrow> Inl e
                 | Inr str_value \<Rightarrow>
                     substitute_matches B d vars matches
                       (replace result (''$'' @ var_name @ ''$'') str_value))
            | None \<Rightarrow> Inl NameError))"

fun substitute_vars_in_value ::
  "'f builtins \<Rightarrow> nat \<Rightarrow> (string \<times> 'f ConfigValue) list \<Rightarrow> 'f ConfigValue
     \<Rightarrow> error + 'f ConfigValue"
where
  "substitute_vars_in_value B 0 vars v = Inl RecursionError"
| "substitute_vars_in_value B (Suc d) vars (NumberValue x) = Inr (NumberValue x)"
| "substitute_vars_in_value B (Suc d) vars (StringValue s has_vars) =
     (if has_vars then substitute_matches B d vars (findall s) s
      else Inr (StringValue s has_vars))"
| "substitute_vars_in_value B (Suc d) vars (VarRefValue name) =
     (if CHR ''.'' \<in> set name then Inl (SyntaxError None)
      else if \<not> valid_name name then Inl (SyntaxError None)
      else (case map_of vars name of
              Some v \<Rightarrow> substitute_vars_in_value B d vars v
            | None \<Rightarrow> Inl NameError))"
| "substitute_vars_in_value B (Suc d) vars (ListValue vs) =
     (case collect (map (substitute_vars_in_value B d vars) vs) of
        Inl e \<Rightarrow> Inl e
      | Inr new_values \<Rightarrow> Inr (ListValue new_values))"
| "substitute_vars_in_value B (Suc d) vars (TableValue items) =
     (case collect (map (\<lambda>(k, v). with_key k (substitute_vars_in_value B d vars v)) items) of
        Inl e \<Rightarrow> Inl e
      | Inr new_items \<Rightarrow> Inr (TableValue new_items))"

text \<open>
  \<^verbatim>\<open>process_variable_substitution\<close>: the loop runs over the entries of the table in
  insertion order and assigns to the key it is at, so every entry is read as the parser
  left it; the third argument is the table as updated so far, the fourth the entries
  still to visit.
\<close>

fun process_loop ::
  "'f builtins \<Rightarrow> nat \<Rightarrow> (string \<times> 'f ConfigValue) list \<Rightarrow> (string \<times> 'f ConfigValue) list
     \<Rightarrow> error + (string \<times> 'f ConfigValue) list"
where
  "process_loop B d vars [] = Inr vars"
| "process_loop B d vars ((var_name, v) # rest) =
     (case substitute_vars_in_value B d vars v of
        Inl e \<Rightarrow> Inl e
      | Inr v' \<Rightarrow> process_loop B d (AList.update var_name v' vars) rest)"

definition process_variable_substitution ::
  "'f builtins \<Rightarrow> nat \<Rightarrow> (string \<times> 'f ConfigValue) list
     \<Rightarrow> error + (string \<times> 'f ConfigValue) list" where
  "process_variable_substitution B d vars = process_loop B d vars vars"

subsection \<open>Conversion to Python values and the entry points\<close>

text \<open>
  What \<^verbatim>\<open>convert_value\<close> returns: a float, a \<^verbatim>\<open>str\<close>, a list, a dictionary, or the
  \<^verbatim>\<open>ConfigValue\<close> object itself (its last line, reached by a \<^verbatim>\<open>VarRefValue\<close>).
\<close>

datatype 'f pyvalue =
    PyFloat 'f
  | PyStr string
  | PyList "'f pyvalue list"
  | PyDict "(string \<times> 'f pyvalue) list"
  | PyObject "'f ConfigValue"

fun convert_value :: "'f ConfigValue \<Rightarrow> 'f pyvalue" where
  "convert_value (NumberValue x) = PyFloat x"
| "convert_value (StringValue s has_vars) = PyStr s"
| "convert_value (ListValue vs) = PyList (map convert_value vs)"
| "convert_value (TableValue items) = PyDict (map (\<lambda>(k, v). (k, convert_value v)) items)"
| "convert_value (VarRefValue name) = PyObject (VarRefValue name)"

definition convert_variables ::
  "(string \<times> 'f ConfigValue) list \<Rightarrow> (string \<times> 'f pyvalue) list" where
  "convert_variables vars = map (\<lambda>(name, v). (name, convert_value v)) vars"

text \<open>
  \<^verbatim>\<open>parse\<close> on an instance in state \<open>st\<close>: the returned dictionary and the state the
  instance is left in. It assigns \<^verbatim>\<open>self.tokens\<close> and \<^verbatim>\<open>self.pos\<close>; the lexer goes on from
  \<^verbatim>\<open>self.current_line\<close> and the declarations are added to \<^verbatim>\<open>self.variables\<close> as they
  are. The second argument bounds the nesting of resolver calls.
\<close>

definition parse ::
  "'f builtins \<Rightarrow> nat \<Rightarrow> 'f parser \<Rightarrow> string
     \<Rightarrow> error + ((string \<times> 'f pyvalue) list \<times> 'f parser)" where
  "parse B d st text =
     (case tokenize_loop B text (current_line st) [] of
        Inl e \<Rightarrow> Inl e
      | Inr (toks, ln) \<Rightarrow>
          (case parse_loop (st\<lparr>tokens := toks, current_line := ln, pos := 0\<rparr>) of
             Inl e \<Rightarrow> Inl e
           | Inr st1 \<Rightarrow>
               (case process_variable_substitution B d (variables st1) of
                  Inl e \<Rightarrow> Inl e
                | Inr vars \<Rightarrow> Inr (convert_variables vars, st1\<lparr>variables := vars\<rparr>))))"

text \<open>\<^verbatim>\<open>parse_config_to_json\<close>: \<^verbatim>\<open>parse\<close> on a new instance.\<close>

definition parse_config_to_json ::
  "'f builtins \<Rightarrow> nat \<Rightarrow> string \<Rightarrow> error + (string \<times> 'f pyvalue) list" where
  "parse_config_to_json B d text =
     (case parse B d init text of Inl e \<Rightarrow> Inl e | Inr (result, st) \<Rightarrow> Inr result)"

section \<open>Running the program on a given text\<close>

text \<open>
  The equations that evaluate the pipeline on a concrete text, by rewriting.
\<close>

lemmas lex_defs = isspace_def isdigit_def isletter_def isidchar_def num_match_def id_match_def

lemmas parse_defs = parse_value.simps parse_list.simps parse_list_loop.simps parse_table.simps
  parse_table_loop.simps parse_var_reference_def parse_var_declaration_def parse_loop.simps
  tok_is_def tok_isnt_def tok_id_def raise_at_def

lemmas subst_defs = process_variable_substitution_def valid_name_def inref_def replace_def
  convert_variables_def with_key_def str_of_list_def str_of_dict_def

lemmas run_defs = parse_config_to_json_def parse_def init_def


text \<open>
  The two halves of \<^verbatim>\<open>parse_config_to_json\<close>: what it does with the tokens when the
  lexer returns, and that an exception of the lexer is its own.
\<close>

lemma run_tokens:
  "tokenize_loop B text 1 [] = Inr (toks, ln) \<Longrightarrow>
   parse_config_to_json B d text =
     (case parse_loop \<lparr>variables = [], pos = 0, tokens = toks, current_line = ln\<rparr> of
        Inl e \<Rightarrow> Inl e
      | Inr st1 \<Rightarrow>
          (case process_variable_substitution B d (variables st1) of
             Inl e \<Rightarrow> Inl e
           | Inr vars \<Rightarrow> Inr (convert_variables vars)))"
  by (simp add: run_defs split: sum.splits)

lemma run_lex_error:
  "tokenize_loop B text 1 [] = Inl e \<Longrightarrow> parse_config_to_json B d text = Inl e"
  by (simp add: run_defs)

section \<open>The lexer on texts that are not given character by character\<close>

lemma isdigit_facts:
  "isdigit c \<Longrightarrow> \<not> isspace c \<and> c \<noteq> CHR '':'' \<and> c \<noteq> CHR ''{'' \<and> c \<noteq> CHR ''@'' \<and>
     \<not> isletter c \<and> c \<notin> set ''()[],=$;'' \<and> c \<noteq> CHR ''+'' \<and> c \<noteq> CHR ''-'' \<and> c \<noteq> CHR ''.''"
  by (auto simp: lex_defs)



lemma not_digit: "\<not> isdigit CHR ''.''" "\<not> isdigit CHR '';''"
  by (simp_all add: isdigit_def)

lemma takeWhile_all: "list_all P xs \<Longrightarrow> \<not> P c \<Longrightarrow> takeWhile P (xs @ c # r) = xs"
  by (induction xs) auto

lemma dropWhile_all: "list_all P xs \<Longrightarrow> \<not> P c \<Longrightarrow> dropWhile P (xs @ c # r) = c # r"
  by (induction xs) auto


text \<open>The start \<^verbatim>\<open>var x = \<close> of a declaration, before any text.\<close>

lemma tokenize_var_x:
  "tokenize_loop B (''var x = '' @ rest) ln toks =
     tokenize_loop B rest ln (toks @ [Token VAR ln, Token (ID ''x'') ln, Token (SYM CHR ''='') ln])"
  by (simp add: lex_defs)

text \<open>Where the number pattern matches, the lexer takes the number branch.\<close>

lemma num_match_head:
  "num_match (c # cs) = Some m \<Longrightarrow> c = CHR ''+'' \<or> c = CHR ''-'' \<or> isdigit c"
  by (auto simp: num_match_def Let_def split: if_splits)

lemma tokenize_number:
  assumes "num_match (c # cs) = Some m"
  shows "tokenize_loop B (c # cs) ln toks =
           tokenize_loop B (drop (length m) (c # cs)) ln
             (toks @ [Token (NUMBER (float_of B m)) ln])"
proof -
  from num_match_head[OF assms] consider "c = CHR ''+''" | "c = CHR ''-''" | "isdigit c"
    by blast
  then have "\<not> isspace c \<and> c \<noteq> CHR '':'' \<and> c \<noteq> CHR ''{''"
  proof cases
    case 1 then show ?thesis by (simp add: isspace_def)
  next
    case 2 then show ?thesis by (simp add: isspace_def)
  next
    case 3 then show ?thesis using isdigit_facts[of c] by simp
  qed
  with assms show ?thesis by simp
qed

text \<open>
  The number pattern on a sign, digits, a full stop and digits, and on a sign and digits
  alone; \<open>c\<close> is the character that follows.
\<close>

lemma num_match_literal:
  assumes "sign = [] \<or> sign = ''+'' \<or> sign = ''-''"
    and "ds1 \<noteq> []" "list_all isdigit ds1" "ds2 \<noteq> []" "list_all isdigit ds2"
    and "\<not> isdigit c"
  shows "num_match (sign @ ds1 @ CHR ''.'' # ds2 @ c # r) = Some (sign @ ds1 @ CHR ''.'' # ds2)"
proof -
  from assms(2) obtain a as where ds1: "ds1 = a # as" by (cases ds1) auto
  with assms(3) have a: "isdigit a" and as: "list_all isdigit as" by simp_all
  from a have sg: "a \<noteq> CHR ''+''" "a \<noteq> CHR ''-''" using isdigit_facts[of a] by simp_all
  have t1: "takeWhile isdigit (ds1 @ CHR ''.'' # ds2 @ c # r) = ds1"
    using assms(3) by (simp add: takeWhile_all not_digit)
  have d1: "dropWhile isdigit (ds1 @ CHR ''.'' # ds2 @ c # r) = CHR ''.'' # ds2 @ c # r"
    using assms(3) by (simp add: dropWhile_all not_digit)
  have t2: "takeWhile isdigit (ds2 @ c # r) = ds2"
    using assms(5,6) by (simp add: takeWhile_all)
  from assms(1) consider "sign = []" | "sign = ''+''" | "sign = ''-''" by blast
  then show ?thesis
  proof cases
    case 1
    have "num_match (ds1 @ CHR ''.'' # ds2 @ c # r) = Some (ds1 @ CHR ''.'' # ds2)"
      unfolding num_match_def using t1 d1 t2 assms(2,4) sg by (simp add: ds1 Let_def)
    with 1 show ?thesis by simp
  next
    case 2
    have "num_match (CHR ''+'' # ds1 @ CHR ''.'' # ds2 @ c # r) =
            Some (CHR ''+'' # ds1 @ CHR ''.'' # ds2)"
      unfolding num_match_def using t1 d1 t2 assms(2,4) by (simp add: Let_def)
    with 2 show ?thesis by simp
  next
    case 3
    have "num_match (CHR ''-'' # ds1 @ CHR ''.'' # ds2 @ c # r) =
            Some (CHR ''-'' # ds1 @ CHR ''.'' # ds2)"
      unfolding num_match_def using t1 d1 t2 assms(2,4) by (simp add: Let_def)
    with 3 show ?thesis by simp
  qed
qed

lemma num_match_integer:
  assumes "sign = [] \<or> sign = ''+'' \<or> sign = ''-''"
    and "ds \<noteq> []" "list_all isdigit ds" "\<not> isdigit c" "c \<noteq> CHR ''.''"
  shows "num_match (sign @ ds @ c # r) = None"
proof -
  from assms(2) obtain a as where ds: "ds = a # as" by (cases ds) auto
  with assms(3) have a: "isdigit a" by simp
  from a have sg: "a \<noteq> CHR ''+''" "a \<noteq> CHR ''-''" using isdigit_facts[of a] by simp_all
  have t1: "takeWhile isdigit (ds @ c # r) = ds"
    using assms(3,4) by (simp add: takeWhile_all)
  have d1: "dropWhile isdigit (ds @ c # r) = c # r"
    using assms(3,4) by (simp add: dropWhile_all)
  from assms(1) consider "sign = []" | "sign = ''+''" | "sign = ''-''" by blast
  then show ?thesis
  proof cases
    case 1
    have "num_match (ds @ c # r) = None"
      unfolding num_match_def using t1 d1 assms(2,5) sg by (simp add: ds Let_def)
    with 1 show ?thesis by simp
  next
    case 2
    have "num_match (CHR ''+'' # ds @ c # r) = None"
      unfolding num_match_def using t1 d1 assms(2,5) by (simp add: Let_def)
    with 2 show ?thesis by simp
  next
    case 3
    have "num_match (CHR ''-'' # ds @ c # r) = None"
      unfolding num_match_def using t1 d1 assms(2,5) by (simp add: Let_def)
    with 3 show ?thesis by simp
  qed
qed

text \<open>A sign and digits before \<^verbatim>\<open>;\<close> match no rule of the lexer.\<close>

lemma tokenize_integer:
  assumes "sign = [] \<or> sign = ''+'' \<or> sign = ''-''"
    and "ds \<noteq> []" "list_all isdigit ds"
  shows "tokenize_loop B (sign @ ds @ '';'') ln toks = Inl (SyntaxError (Some ln))"
proof -
  from assms(2) obtain a as where ds: "ds = a # as" by (cases ds) auto
  with assms(3) have a: "isdigit a" by simp
  have nm: "num_match (sign @ ds @ CHR '';'' # []) = None"
    using assms by (rule num_match_integer) (simp_all add: not_digit)
  from assms(1) consider "sign = []" | "sign = ''+''" | "sign = ''-''" by blast
  then show ?thesis
  proof cases
    case 1
    with nm have "num_match (a # as @ '';'') = None" by (simp add: ds)
    then show ?thesis using isdigit_facts[OF a] by (simp add: 1 ds id_match_def)
  next
    case 2
    with nm have "num_match (CHR ''+'' # ds @ '';'') = None" by simp
    then show ?thesis by (simp add: 2 isspace_def isletter_def id_match_def)
  next
    case 3
    with nm have "num_match (CHR ''-'' # ds @ '';'') = None" by simp
    then show ?thesis by (simp add: 3 isspace_def isletter_def id_match_def)
  qed
qed

section \<open>Identifiers, string literals and references that are not given character by character\<close>


















section \<open>The references of a value\<close>







section \<open>Punctuation written as a string literal\<close>

text \<open>
  \<open>quoted t t'\<close>: the token \<open>t'\<close> is \<open>t\<close>, or \<open>t\<close> is one of the punctuation tokens
  \<^verbatim>\<open>= ; ( ) [ ]\<close> and \<open>t'\<close> is the token of a string literal with that character as its
  text, on the same line. Two token lists are related by \<open>list_all2 quoted\<close> when the
  second is the first with some of these punctuation tokens written as string literals.
\<close>

definition quoted :: "'f token \<Rightarrow> 'f token \<Rightarrow> bool" where
  "quoted t t' =
     (t' = t \<or>
      (case lexeme t of
         SYM c \<Rightarrow> c \<in> set ''=;()[]'' \<and> t' = Token (STRING [c]) (line t)
       | _ \<Rightarrow> False))"

text \<open>
  The tests the parser makes on a token give the same answer on both lists, and a token
  at which a value is parsed is the same in both.
\<close>

lemma quoted_payload: "quoted t t' \<Longrightarrow> payload (lexeme t') = payload (lexeme t)"
  by (auto simp: quoted_def split: lexeme.splits)

lemma quoted_lexeme:
  "quoted t t' \<Longrightarrow>
     lexeme t' = lexeme t \<or>
     (\<exists>c. c \<noteq> CHR ''$'' \<and> lexeme t = SYM c \<and> lexeme t' = STRING [c])"
  by (auto simp: quoted_def split: lexeme.splits)

lemma q_nth: "list_all2 quoted toks toks' \<Longrightarrow> p < length toks \<Longrightarrow> quoted (toks ! p) (toks' ! p)"
  by (simp add: list_all2_nthD)

lemma q_tok_is: "list_all2 quoted toks toks' \<Longrightarrow> tok_is toks' p s = tok_is toks p s"
  using quoted_payload[OF q_nth, of toks toks' p]
  by (auto simp: tok_is_def list_all2_lengthD)

lemma q_tok_isnt: "list_all2 quoted toks toks' \<Longrightarrow> tok_isnt toks' p s = tok_isnt toks p s"
  using quoted_payload[OF q_nth, of toks toks' p]
  by (auto simp: tok_isnt_def list_all2_lengthD)

lemma q_tok_id: "list_all2 quoted toks toks' \<Longrightarrow> tok_id toks' p = tok_id toks p"
  using quoted_lexeme[OF q_nth, of toks toks' p]
  by (auto simp: tok_id_def list_all2_lengthD split: lexeme.splits)

lemma q_var_reference:
  "list_all2 quoted toks toks' \<Longrightarrow> parse_var_reference toks p = Inr r \<Longrightarrow>
   parse_var_reference toks' p = Inr r"
  by (auto simp: parse_var_reference_def q_tok_is q_tok_id split: option.splits if_splits)

lemma q_value_head:
  assumes q: "list_all2 quoted toks toks'" and r: "parse_value toks p = Inr r"
  shows "p < length toks' \<and> lexeme (toks' ! p) = lexeme (toks ! p)"
proof -
  from r have p: "p < length toks"
    by (simp add: parse_value.simps[of toks p] split: if_splits)
  from r p have "\<forall>c. c \<noteq> CHR ''$'' \<longrightarrow> lexeme (toks ! p) \<noteq> SYM c"
    by (auto simp: parse_value.simps[of toks p])
  with quoted_lexeme[OF q_nth[OF q p]] p q show ?thesis
    by (auto simp: list_all2_lengthD)
qed

text \<open>
  What a parsing method returns on the first list it returns on the second.
\<close>

lemma parse_quoted:
  assumes q: "list_all2 quoted toks toks'"
  shows "\<forall>r. parse_value toks p = Inr r \<longrightarrow> parse_value toks' p = Inr r"
    and "\<forall>r. parse_list toks p = Inr r \<longrightarrow> parse_list toks' p = Inr r"
    and "\<forall>r. parse_list_loop toks p vs = Inr r \<longrightarrow> parse_list_loop toks' p vs = Inr r"
    and "\<forall>r. parse_table toks p = Inr r \<longrightarrow> parse_table toks' p = Inr r"
    and "\<forall>r. parse_table_loop toks p items = Inr r \<longrightarrow> parse_table_loop toks' p items = Inr r"
  using q
proof (induct toks p and toks p and toks p vs and toks p and toks p items
    rule: parse_value_parse_list_parse_list_loop_parse_table_parse_table_loop.induct)
  case (1 toks p)
  note q = 1(3)
  show ?case
  proof (intro allI impI)
    fix r assume r: "parse_value toks p = Inr r"
    from q_value_head[OF q r] have p': "p < length toks'"
      and lx: "lexeme (toks' ! p) = lexeme (toks ! p)" by simp_all
    from p' q have p: "\<not> length toks \<le> p" by (simp add: list_all2_lengthD)
    show "parse_value toks' p = Inr r"
    proof (cases "lexeme (toks ! p)")
      case LIST
      with r p have "parse_list toks p = Inr r" by (simp add: parse_value.simps[of toks p])
      with 1(1)[OF p LIST q] have "parse_list toks' p = Inr r" by (cases r) auto
      with LIST lx p' show ?thesis by (simp add: parse_value.simps[of toks' p])
    next
      case TABLE
      with r p have "parse_table toks p = Inr r" by (simp add: parse_value.simps[of toks p])
      with 1(2)[OF p TABLE q] have "parse_table toks' p = Inr r" by (cases r) auto
      with TABLE lx p' show ?thesis by (simp add: parse_value.simps[of toks' p])
    next
      case (SYM c)
      with r p have "parse_var_reference toks p = Inr r" and "c = CHR ''$''"
        by (simp_all add: parse_value.simps[of toks p] split: if_splits)
      with q_var_reference[OF q] SYM lx p' show ?thesis
        by (simp add: parse_value.simps[of toks' p])
    qed (use r p lx p' in \<open>simp_all add: parse_value.simps[of toks p] parse_value.simps[of toks' p]\<close>)
  qed
next
  case (2 toks p)
  note q = 2(2)
  show ?case
  proof (intro allI impI)
    fix r assume r: "parse_list toks p = Inr r"
    show "parse_list toks' p = Inr r"
    proof (cases "tok_is toks (p + 1) ''('' \<and> \<not> tok_is toks (p + 2) '')''")
      case True
      with r have "parse_list_loop toks (p + 2) [] = Inr r"
        by (simp add: parse_list.simps[of toks p])
      with 2(1)[OF _ _ q] True have "parse_list_loop toks' (p + 2) [] = Inr r" by (cases r) auto
      with True show ?thesis by (simp add: parse_list.simps[of toks' p] q_tok_is[OF q])
    next
      case False
      with r show ?thesis
        by (auto simp: parse_list.simps[of toks p] parse_list.simps[of toks' p] q_tok_is[OF q]
            split: if_splits)
    qed
  qed
next
  case (3 toks p vs)
  note q = 3(4)
  show ?case
  proof (intro allI impI)
    fix r assume r: "parse_list_loop toks p vs = Inr r"
    show "parse_list_loop toks' p vs = Inr r"
    proof (cases "tok_isnt toks p '')''")
      case False
      with r show ?thesis
        by (auto simp: parse_list_loop.simps[of toks p] parse_list_loop.simps[of toks' p]
            q_tok_is[OF q] q_tok_isnt[OF q] split: if_splits)
    next
      case True
      with r obtain x y where pv: "parse_value toks p = Inr (x, y)"
        by (auto simp: parse_list_loop.simps[of toks p] split: sum.splits)
      from 3(1)[OF True q] pv have pv': "parse_value toks' p = Inr (x, y)" by simp
      show ?thesis
      proof (cases "tok_is toks y '',''")
        case c: True
        with r True pv have "parse_list_loop toks (y + 1) (vs @ [x]) = Inr r"
          by (simp add: parse_list_loop.simps[of toks p])
        with 3(2)[OF True pv refl c q] have "parse_list_loop toks' (y + 1) (vs @ [x]) = Inr r"
          by (cases r) auto
        with True pv' c show ?thesis
          by (simp add: parse_list_loop.simps[of toks' p] q_tok_is[OF q] q_tok_isnt[OF q])
      next
        case c: False
        with r True pv have d: "\<not> tok_isnt toks y '')''"
          and "parse_list_loop toks y (vs @ [x]) = Inr r"
          by (auto simp: parse_list_loop.simps[of toks p] split: if_splits)
        with 3(3)[OF True pv refl c d q] have "parse_list_loop toks' y (vs @ [x]) = Inr r"
          by (cases r) auto
        with True pv' c d show ?thesis
          by (simp add: parse_list_loop.simps[of toks' p] q_tok_is[OF q] q_tok_isnt[OF q])
      qed
    qed
  qed
next
  case (4 toks p)
  note q = 4(2)
  show ?case
  proof (intro allI impI)
    fix r assume r: "parse_table toks p = Inr r"
    show "parse_table toks' p = Inr r"
    proof (cases "tok_is toks (p + 1) ''('' \<and> tok_is toks (p + 2) ''['' \<and>
                  \<not> tok_is toks (p + 3) '']''")
      case True
      with r have "parse_table_loop toks (p + 3) [] = Inr r"
        by (simp add: parse_table.simps[of toks p])
      with 4(1)[OF _ _ _ q] True have "parse_table_loop toks' (p + 3) [] = Inr r" by (cases r) auto
      with True show ?thesis by (simp add: parse_table.simps[of toks' p] q_tok_is[OF q])
    next
      case False
      with r show ?thesis
        by (auto simp: parse_table.simps[of toks p] parse_table.simps[of toks' p] q_tok_is[OF q]
            split: if_splits)
    qed
  qed
next
  case (5 toks p items)
  note q = 5(4)
  show ?case
  proof (intro allI impI)
    fix r assume r: "parse_table_loop toks p items = Inr r"
    show "parse_table_loop toks' p items = Inr r"
    proof (cases "tok_isnt toks p '']''")
      case False
      with r show ?thesis
        by (auto simp: parse_table_loop.simps[of toks p] parse_table_loop.simps[of toks' p]
            q_tok_is[OF q] q_tok_isnt[OF q] split: if_splits)
    next
      case True
      with r obtain key where k: "tok_id toks p = Some key"
        by (auto simp: parse_table_loop.simps[of toks p] split: option.splits)
      with r True have e: "\<not> \<not> tok_is toks (p + 1) ''=''"
        by (auto simp: parse_table_loop.simps[of toks p] split: if_splits)
      with r True k obtain x y where pv: "parse_value toks (p + 2) = Inr (x, y)"
        by (auto simp: parse_table_loop.simps[of toks p] split: sum.splits)
      from 5(1)[OF True k e q] pv have pv': "parse_value toks' (p + 2) = Inr (x, y)" by simp
      show ?thesis
      proof (cases "tok_is toks y '',''")
        case c: True
        with r True k e pv
        have "parse_table_loop toks (y + 1) (AList.update key x items) = Inr r"
          by (simp add: parse_table_loop.simps[of toks p])
        with 5(2)[OF True k e pv refl c q]
        have "parse_table_loop toks' (y + 1) (AList.update key x items) = Inr r" by (cases r) auto
        with True k e pv' c show ?thesis
          by (simp add: parse_table_loop.simps[of toks' p] q_tok_is[OF q] q_tok_isnt[OF q]
              q_tok_id[OF q])
      next
        case c: False
        with r True k e pv have d: "\<not> tok_isnt toks y '']''"
          and "parse_table_loop toks y (AList.update key x items) = Inr r"
          by (auto simp: parse_table_loop.simps[of toks p] split: if_splits)
        with 5(3)[OF True k e pv refl c d q]
        have "parse_table_loop toks' y (AList.update key x items) = Inr r" by (cases r) auto
        with True k e pv' c d show ?thesis
          by (simp add: parse_table_loop.simps[of toks' p] q_tok_is[OF q] q_tok_isnt[OF q]
              q_tok_id[OF q])
      qed
    qed
  qed
qed


lemma q_var:
  "list_all2 quoted toks toks' \<Longrightarrow> p < length toks \<Longrightarrow>
   (lexeme (toks' ! p) = VAR) = (lexeme (toks ! p) = VAR)"
  using quoted_lexeme[OF q_nth, of toks toks' p] by auto

lemma declaration_quoted:
  assumes q: "list_all2 quoted (tokens st) toks'"
    and r: "parse_var_declaration st = Inr st1"
  shows "parse_var_declaration (st\<lparr>tokens := toks', current_line := l\<rparr>) =
           Inr (st1\<lparr>tokens := toks', current_line := l\<rparr>)"
proof -
  from r obtain name where n: "tok_id (tokens st) (pos st + 1) = Some name"
    by (auto simp: parse_var_declaration_def split: option.splits)
  with r have e: "tok_is (tokens st) (pos st + 2) ''=''"
    by (auto simp: parse_var_declaration_def split: if_splits)
  with r n obtain v p' where pv: "parse_value (tokens st) (pos st + 3) = Inr (v, p')"
    by (auto simp: parse_var_declaration_def split: sum.splits)
  with r n e have s: "tok_is (tokens st) p' '';''"
    and st1: "st1 = st\<lparr>variables := AList.update name v (variables st), pos := p' + 1\<rparr>"
    by (auto simp: parse_var_declaration_def split: if_splits)
  from parse_quoted(1)[OF q] pv have "parse_value toks' (pos st + 3) = Inr (v, p')" by simp
  with n e s st1 show ?thesis
    by (simp add: parse_var_declaration_def q_tok_is[OF q] q_tok_id[OF q])
qed

lemma loop_quoted:
  "list_all2 quoted (tokens st) toks' \<Longrightarrow> parse_loop st = Inr st1 \<Longrightarrow>
   parse_loop (st\<lparr>tokens := toks', current_line := l\<rparr>) =
     Inr (st1\<lparr>tokens := toks', current_line := l\<rparr>)"
proof (induct st arbitrary: st1 rule: parse_loop.induct)
  case (1 st)
  note q = 1(3) and r = 1(4)
  have len: "length toks' = length (tokens st)" using q by (simp add: list_all2_lengthD)
  show ?case
  proof (cases "pos st < length (tokens st)")
    case False
    with r have "st1 = st" by (simp add: parse_loop.simps[of st])
    with False len show ?thesis
      by (subst parse_loop.simps) simp
  next
    case p: True
    show ?thesis
    proof (cases "lexeme (tokens st ! pos st) = VAR")
      case True
      with r p obtain st2 where d: "parse_var_declaration st = Inr st2"
        and r2: "parse_loop st2 = Inr st1"
        by (auto simp: parse_loop.simps[of st] split: sum.splits)
      from parse_var_declaration_progress[OF d] have t2: "tokens st2 = tokens st" by simp
      from 1(1)[OF p True d _ r2] q t2
      have "parse_loop (st2\<lparr>tokens := toks', current_line := l\<rparr>) =
              Inr (st1\<lparr>tokens := toks', current_line := l\<rparr>)" by simp
      with declaration_quoted[OF q d, of l] p True len q_var[OF q p] show ?thesis
        by (subst parse_loop.simps) simp
    next
      case False
      with r p have r2: "parse_loop (st\<lparr>pos := pos st + 1\<rparr>) = Inr st1"
        by (simp add: parse_loop.simps[of st])
      have comm: "st\<lparr>pos := pos st + 1, tokens := toks', current_line := l\<rparr> =
            st\<lparr>tokens := toks', current_line := l, pos := pos st + 1\<rparr>"
        by (cases st) simp
      from 1(2)[OF p False _ r2] q
      have "parse_loop (st\<lparr>pos := pos st + 1, tokens := toks', current_line := l\<rparr>) =
              Inr (st1\<lparr>tokens := toks', current_line := l\<rparr>)" by simp
      then have "parse_loop (st\<lparr>tokens := toks', current_line := l, pos := pos st + 1\<rparr>) =
              Inr (st1\<lparr>tokens := toks', current_line := l\<rparr>)" by (simp only: comm)
      with p False len q_var[OF q p] show ?thesis
        by (subst parse_loop.simps) simp
    qed
  qed
qed

section \<open>The claims of the specification\<close>

text \<open>
  In the theorems below \<open>B\<close> is any interpretation of the Python builtins and the bound on
  the nesting of resolver calls is any number that the input at hand needs, written
  \<open>Suc d\<close> or \<open>Suc (Suc d)\<close>. Where a statement has to be closed, the builtins are the
  identity on texts: a float is then the literal it was read from.
\<close>

subsection \<open>C1: nothing unresolved remains after resolution\<close>

text \<open>
  Claim C1: for every input the pipeline accepts, the returned mapping holds no
  \<^verbatim>\<open>VarRefValue\<close> and no string with an unresolved \<^verbatim>\<open>$name$\<close> pattern, in particular
  when a string variable refers to a string variable declared later that itself embeds a
  reference.

  The code does not do this. On
  \<^verbatim>\<open>var a = @"$b$"; var b = @"$c$"; var c = @"X";\<close> the pipeline returns, and \<open>a\<close> is the
  text \<^verbatim>\<open>$c$\<close>: when \<open>a\<close> is resolved, \<^verbatim>\<open>get_string_value\<close> hands back the text of \<open>b\<close> as
  the parser left it, while \<open>b\<close>, visited next, is resolved to \<^verbatim>\<open>X\<close>.
\<close>

theorem C1_later_string_left_unresolved:
  "parse_config_to_json B (Suc (Suc d))
     ''var a = @\"$b$\"; var b = @\"$c$\"; var c = @\"X\";'' =
   Inr [(''a'', PyStr ''$c$''), (''b'', PyStr ''X''), (''c'', PyStr ''X'')]"
  by (simp add: run_defs lex_defs parse_defs subst_defs)

subsection \<open>C2: reference resolution\<close>

text \<open>
  Claim C2: for \<^verbatim>\<open>var a = @"X"; var b = @"$a$";\<close> the result maps \<open>b\<close> to the string
  \<^verbatim>\<open>X\<close>, and for \<^verbatim>\<open>var n = 5.0; var m = $n$;\<close> it maps \<open>m\<close> to the float that \<^verbatim>\<open>5.0\<close>
  denotes, the number itself and not a text.
\<close>

theorem C2_reference_resolution:
  "parse_config_to_json B (Suc (Suc d)) ''var a = @\"X\"; var b = @\"$a$\";'' =
     Inr [(''a'', PyStr ''X''), (''b'', PyStr ''X'')] \<and>
   parse_config_to_json B (Suc (Suc d)) ''var n = 5.0; var m = $n$;'' =
     Inr [(''n'', PyFloat (float_of B ''5.0'')), (''m'', PyFloat (float_of B ''5.0''))]"
  by (simp add: run_defs lex_defs parse_defs subst_defs)

subsection \<open>C3: number literals\<close>

text \<open>
  Claim C3: a literal of the form optional sign, digits, full stop, digits, declared as a
  value, is materialized as \<^verbatim>\<open>float\<close> of that literal; a declaration whose value is a
  bare integer (digits, signed or not, and no full stop) raises \<^verbatim>\<open>SyntaxError\<close>. The
  declaration is \<^verbatim>\<open>var x = <literal>;\<close>, the error is the lexer's and names line 1.
\<close>

theorem C3_number_literals:
  assumes "sign = [] \<or> sign = ''+'' \<or> sign = ''-''"
    and "ds1 \<noteq> []" "list_all isdigit ds1" "ds2 \<noteq> []" "list_all isdigit ds2"
  shows "parse_config_to_json B (Suc d) (''var x = '' @ sign @ ds1 @ ''.'' @ ds2 @ '';'') =
           Inr [(''x'', PyFloat (float_of B (sign @ ds1 @ ''.'' @ ds2)))] \<and>
         parse_config_to_json B d (''var x = '' @ sign @ ds1 @ '';'') =
           Inl (SyntaxError (Some 1))"
proof
  let ?lit = "sign @ ds1 @ CHR ''.'' # ds2"
  have nm: "num_match (?lit @ '';'') = Some ?lit"
    using num_match_literal[OF assms, of "CHR '';''" "[]"] by (simp add: not_digit)
  from assms(2) obtain c cs where lit: "?lit @ '';'' = c # cs" by (cases "?lit @ '';''") auto
  have "tokenize_loop B (?lit @ '';'') 1
          [Token VAR 1, Token (ID ''x'') 1, Token (SYM CHR ''='') 1] =
        tokenize_loop B (drop (length ?lit) (?lit @ '';'')) 1
          ([Token VAR 1, Token (ID ''x'') 1, Token (SYM CHR ''='') 1] @
           [Token (NUMBER (float_of B ?lit)) 1])"
    using tokenize_number[of c cs ?lit] nm unfolding lit[symmetric] by blast
  also have "drop (length ?lit) (?lit @ '';'') = '';''" by simp
  finally have "tokenize_loop B (''var x = '' @ ?lit @ '';'') 1 [] =
      Inr ([Token VAR 1, Token (ID ''x'') 1, Token (SYM CHR ''='') 1,
            Token (NUMBER (float_of B ?lit)) 1, Token (SYM CHR '';'') 1], 1)"
    by (simp only: tokenize_var_x) (simp add: lex_defs)
  from run_tokens[OF this, of "Suc d"]
  show "parse_config_to_json B (Suc d) (''var x = '' @ sign @ ds1 @ ''.'' @ ds2 @ '';'') =
           Inr [(''x'', PyFloat (float_of B (sign @ ds1 @ ''.'' @ ds2)))]"
    by (simp add: parse_defs subst_defs)
next
  have "tokenize_loop B (''var x = '' @ sign @ ds1 @ '';'') 1 [] = Inl (SyntaxError (Some 1))"
    by (simp only: tokenize_var_x tokenize_integer[OF assms(1,2,3)])
  then show "parse_config_to_json B d (''var x = '' @ sign @ ds1 @ '';'') =
           Inl (SyntaxError (Some 1))"
    by (rule run_lex_error)
qed

text \<open>The theorem at \<^verbatim>\<open>-12.50\<close> and at \<^verbatim>\<open>-12\<close>.\<close>

theorem C3_number_literals_witness:
  "parse_config_to_json \<lparr>float_of = id, str_of_float = id, repr_of_str = id\<rparr>
      (Suc 0) ''var x = -12.50;'' = Inr [(''x'', PyFloat ''-12.50'')] \<and>
   parse_config_to_json \<lparr>float_of = id, str_of_float = id, repr_of_str = id\<rparr>
      0 ''var x = -12;'' = Inl (SyntaxError (Some 1))"
  using C3_number_literals[of "''-''" "''12''" "''50''"
      "\<lparr>float_of = id, str_of_float = id, repr_of_str = id\<rparr>" 0]
  by (simp add: isdigit_def)

subsection \<open>C4: a reference to a name that is not declared\<close>



subsection \<open>C5: a dotted reference\<close>



subsection \<open>C6: a comma before the closing parenthesis of a list\<close>

text \<open>
  Claim C6 says that a comma directly before the closing parenthesis of a list, as in
  \<^verbatim>\<open>var l = list(1.0,);\<close>, raises \<^verbatim>\<open>SyntaxError\<close>. The loop of \<^verbatim>\<open>parse_list\<close> tests
  for \<^verbatim>\<open>)\<close> again after every comma, so the list ends there: that input is accepted and
  \<open>l\<close> is the list of the one number.
\<close>

theorem C6_counterexample:
  "parse_config_to_json \<lparr>float_of = id, str_of_float = id, repr_of_str = id\<rparr>
     (Suc (Suc 0)) ''var l = list(1.0,);'' = Inr [(''l'', PyList [PyFloat ''1.0''])]"
  by (simp add: run_defs lex_defs parse_defs subst_defs)

text \<open>
  Claim C6 as amended: a comma directly before the closing parenthesis of a list is
  accepted. When the loop of \<^verbatim>\<open>parse_list\<close> stands at an element, the element parses, and
  a comma and then \<^verbatim>\<open>)\<close> follow, the list is the elements read so far and this one; and
  \<^verbatim>\<open>var l = list(1.0,);\<close> yields the mapping of \<open>l\<close> to the list of the one number.
\<close>

theorem C6_trailing_comma_accepted:
  assumes "tok_isnt toks p '')''" and "parse_value toks p = Inr (v, q)"
    and "tok_is toks q '',''" and "tok_is toks (q + 1) '')''"
  shows "parse_list_loop toks p vs = Inr (ListValue (vs @ [v]), q + 2) \<and>
         parse_config_to_json B (Suc (Suc d)) ''var l = list(1.0,);'' =
           Inr [(''l'', PyList [PyFloat (float_of B ''1.0'')])]"
proof
  show "parse_list_loop toks p vs = Inr (ListValue (vs @ [v]), q + 2)"
    using assms
    by (simp add: parse_list_loop.simps[of toks p] parse_list_loop.simps[of toks "Suc q"]
        tok_is_def tok_isnt_def)
  show "parse_config_to_json B (Suc (Suc d)) ''var l = list(1.0,);'' =
           Inr [(''l'', PyList [PyFloat (float_of B ''1.0'')])]"
    by (simp add: run_defs lex_defs parse_defs subst_defs)
qed

text \<open>The theorem at the tokens of \<^verbatim>\<open>list(1.0,)\<close>, the loop standing at the number.\<close>

theorem C6_trailing_comma_accepted_witness:
  "parse_list_loop
     [Token LIST 1, Token (SYM CHR ''('') 1, Token (NUMBER ''1.0'') 1, Token (SYM CHR '','') 1,
      Token (SYM CHR '')'') 1] 2 [] = Inr (ListValue [NumberValue ''1.0''], 5) \<and>
   parse_config_to_json \<lparr>float_of = id, str_of_float = id, repr_of_str = id\<rparr>
     (Suc (Suc 0)) ''var l = list(1.0,);'' = Inr [(''l'', PyList [PyFloat ''1.0''])]"
  using C6_trailing_comma_accepted[of
      "[Token LIST 1, Token (SYM CHR ''('') 1, Token (NUMBER ''1.0'') 1, Token (SYM CHR '','') 1,
        Token (SYM CHR '')'') 1]" 2 "NumberValue ''1.0''" 3 "[]"
      "\<lparr>float_of = id, str_of_float = id, repr_of_str = id\<rparr>" 0]
  by (simp add: parse_value.simps tok_is_def tok_isnt_def)

subsection \<open>C7: the empty table\<close>

text \<open>
  Claim C7: after \<^verbatim>\<open>table ( [ ]\<close> the next token must be \<^verbatim>\<open>)\<close>; an input where it is
  absent or another token, as \<^verbatim>\<open>var t = table([];;\<close>, raises \<^verbatim>\<open>SyntaxError\<close>.

  The code does not do this. The branch of \<^verbatim>\<open>parse_table\<close> for the empty table steps over
  the token after \<^verbatim>\<open>]\<close> without looking at it (the branch for a table with entries tests
  it), so \<^verbatim>\<open>var t = table([];;\<close> is accepted with \<open>t\<close> the empty table; and when the text
  ends after \<^verbatim>\<open>]\<close> the exception is an \<^verbatim>\<open>IndexError\<close>, raised while the message of the
  missing \<^verbatim>\<open>;\<close> is built.
\<close>

theorem C7_empty_table_skips_token:
  "parse_config_to_json B (Suc d) ''var t = table([];;'' = Inr [(''t'', PyDict [])] \<and>
   parse_config_to_json B (Suc d) ''var t = table([]'' = Inl IndexError"
  by (simp add: run_defs lex_defs parse_defs subst_defs)

subsection \<open>C8: punctuation is compared by payload\<close>

text \<open>
  Claim C8: wherever the parser requires one of the punctuation tokens
  \<^verbatim>\<open>= ; ( ) [ ]\<close>, a string literal whose text is that one character is accepted in its
  place, because the parser compares the payload of the token and not its kind; for
  example \<^verbatim>\<open>var x = 1.0 @";"\<close> yields the mapping of \<open>x\<close> to 1.0.

  The theorem says: let \<open>text\<close> be accepted by the pipeline with the result \<open>result\<close>, and
  let the tokens of \<open>text'\<close> be the tokens of \<open>text\<close> with any number of those punctuation
  tokens, at any places, written as string literals; then \<open>text'\<close> is accepted with the
  same result. Then the claim's example and one input for every place where
  \<^verbatim>\<open>parse_var_declaration\<close>, \<^verbatim>\<open>parse_list\<close> and \<^verbatim>\<open>parse_table\<close> test for punctuation: the
  \<^verbatim>\<open>=\<close> and \<^verbatim>\<open>;\<close> of a declaration, the parentheses of a list and of the empty list,
  the parentheses and brackets of a table and of the empty table, and the \<^verbatim>\<open>=\<close> after a
  key.
\<close>

theorem C8_string_token_as_punctuation:
  assumes "tokenize_loop B text 1 [] = Inr (toks, ln)"
    and "tokenize_loop B text' 1 [] = Inr (toks', ln')"
    and "list_all2 quoted toks toks'"
    and "parse_config_to_json B d text = Inr result"
  shows "parse_config_to_json B d text' = Inr result \<and>
   parse_config_to_json B (Suc (Suc e)) ''var x = 1.0 @\";\"'' =
     Inr [(''x'', PyFloat (float_of B ''1.0''))] \<and>
   parse_config_to_json B (Suc (Suc e)) ''var x @\"=\" 1.0;'' =
     Inr [(''x'', PyFloat (float_of B ''1.0''))] \<and>
   parse_config_to_json B (Suc (Suc e)) ''var l = list @\"(\" 1.0 @\")\";'' =
     Inr [(''l'', PyList [PyFloat (float_of B ''1.0'')])] \<and>
   parse_config_to_json B (Suc (Suc e)) ''var l = list @\"(\" @\")\";'' =
     Inr [(''l'', PyList [])] \<and>
   parse_config_to_json B (Suc (Suc e))
       ''var t = table @\"(\" @\"[\" a = 1.0 @\"]\" @\")\";'' =
     Inr [(''t'', PyDict [(''a'', PyFloat (float_of B ''1.0''))])] \<and>
   parse_config_to_json B (Suc (Suc e)) ''var t = table @\"(\" @\"[\" @\"]\" @\")\";'' =
     Inr [(''t'', PyDict [])] \<and>
   parse_config_to_json B (Suc (Suc e)) ''var t = table([a @\"=\" 1.0]);'' =
     Inr [(''t'', PyDict [(''a'', PyFloat (float_of B ''1.0''))])]"
proof (intro conjI)
  let ?st = "\<lparr>variables = [], pos = 0, tokens = toks, current_line = ln\<rparr>"
  from assms(4) obtain st1 where l: "parse_loop ?st = Inr st1"
    by (auto simp: run_tokens[OF assms(1)] split: sum.splits)
  from loop_quoted[of ?st toks' st1 ln'] assms(3) l
  have "parse_loop \<lparr>variables = [], pos = 0, tokens = toks', current_line = ln'\<rparr> =
          Inr (st1\<lparr>tokens := toks', current_line := ln'\<rparr>)" by simp
  with assms(4) l show "parse_config_to_json B d text' = Inr result"
    by (simp add: run_tokens[OF assms(1)] run_tokens[OF assms(2)])
  show "parse_config_to_json B (Suc (Suc e)) ''var x = 1.0 @\";\"'' =
     Inr [(''x'', PyFloat (float_of B ''1.0''))]"
    by (simp add: run_defs lex_defs parse_defs subst_defs)
  show "parse_config_to_json B (Suc (Suc e)) ''var x @\"=\" 1.0;'' =
     Inr [(''x'', PyFloat (float_of B ''1.0''))]"
    by (simp add: run_defs lex_defs parse_defs subst_defs)
  show "parse_config_to_json B (Suc (Suc e)) ''var l = list @\"(\" 1.0 @\")\";'' =
     Inr [(''l'', PyList [PyFloat (float_of B ''1.0'')])]"
    by (simp add: run_defs lex_defs parse_defs subst_defs)
  show "parse_config_to_json B (Suc (Suc e)) ''var l = list @\"(\" @\")\";'' =
     Inr [(''l'', PyList [])]"
    by (simp add: run_defs lex_defs parse_defs subst_defs)
  show "parse_config_to_json B (Suc (Suc e))
       ''var t = table @\"(\" @\"[\" a = 1.0 @\"]\" @\")\";'' =
     Inr [(''t'', PyDict [(''a'', PyFloat (float_of B ''1.0''))])]"
    by (simp add: run_defs lex_defs parse_defs subst_defs)
  show "parse_config_to_json B (Suc (Suc e)) ''var t = table @\"(\" @\"[\" @\"]\" @\")\";'' =
     Inr [(''t'', PyDict [])]"
    by (simp add: run_defs lex_defs parse_defs subst_defs)
  show "parse_config_to_json B (Suc (Suc e)) ''var t = table([a @\"=\" 1.0]);'' =
     Inr [(''t'', PyDict [(''a'', PyFloat (float_of B ''1.0''))])]"
    by (simp add: run_defs lex_defs parse_defs subst_defs)
qed

text \<open>
  The theorem at \<^verbatim>\<open>var t = table([a = 1.0]);\<close> and the same text with the \<^verbatim>\<open>=\<close> after
  the key and the closing parenthesis written as string literals.
\<close>

theorem C8_string_token_as_punctuation_witness:
  "parse_config_to_json \<lparr>float_of = id, str_of_float = id, repr_of_str = id\<rparr>
     (Suc (Suc 0)) ''var t = table([a @\"=\" 1.0] @\")\";'' =
   Inr [(''t'', PyDict [(''a'', PyFloat ''1.0'')])]"
proof -
  let ?B = "\<lparr>float_of = id, str_of_float = id, repr_of_str = id\<rparr> :: string builtins"
  let ?toks = "[Token VAR 1, Token (ID ''t'') 1, Token (SYM CHR ''='') 1, Token TABLE 1,
      Token (SYM CHR ''('') 1, Token (SYM CHR ''['') 1, Token (ID ''a'') 1,
      Token (SYM CHR ''='') 1, Token (NUMBER ''1.0'') 1, Token (SYM CHR '']'') 1,
      Token (SYM CHR '')'') 1, Token (SYM CHR '';'') 1] :: string token list"
  let ?toks' = "[Token VAR 1, Token (ID ''t'') 1, Token (SYM CHR ''='') 1, Token TABLE 1,
      Token (SYM CHR ''('') 1, Token (SYM CHR ''['') 1, Token (ID ''a'') 1,
      Token (STRING ''='') 1, Token (NUMBER ''1.0'') 1, Token (SYM CHR '']'') 1,
      Token (STRING '')'') 1, Token (SYM CHR '';'') 1] :: string token list"
  have 1: "tokenize_loop ?B ''var t = table([a = 1.0]);'' 1 [] = Inr (?toks, 1)"
    by (simp add: lex_defs)
  have 2: "tokenize_loop ?B ''var t = table([a @\"=\" 1.0] @\")\";'' 1 [] = Inr (?toks', 1)"
    by (simp add: lex_defs)
  have 3: "list_all2 quoted ?toks ?toks'" by (simp add: quoted_def)
  have 4: "parse_config_to_json ?B (Suc (Suc 0)) ''var t = table([a = 1.0]);'' =
             Inr [(''t'', PyDict [(''a'', PyFloat ''1.0'')])]"
    by (simp add: run_defs lex_defs parse_defs subst_defs)
  from C8_string_token_as_punctuation[OF 1 2 3 4] show ?thesis by (rule conjunct1)
qed

subsection \<open>C9: the line counter\<close>

text \<open>
  Claim C9: every newline of the input increments the line counter, also inside a block
  comment and inside a string literal, so a \<^verbatim>\<open>SyntaxError\<close> raised after a block comment
  of several lines carries the true line of the offending token.

  The code does not do this. The counter is incremented in the whitespace branch of
  \<^verbatim>\<open>tokenize\<close> only; the branches for block comments and string literals jump over their
  text. In the first input below the bare integer \<^verbatim>\<open>10\<close> is on line 4 and in the second
  on line 3; both errors name line 2. In the third the newlines are whitespace and the
  error names line 4.
\<close>

theorem C9_newlines_in_comments_and_strings_not_counted:
  "parse_config_to_json B d ''{{!\<newline>a\<newline>!}}\<newline>var x = 10;'' =
     Inl (SyntaxError (Some 2)) \<and>
   parse_config_to_json B d ''var s = @\"a\<newline>b\";\<newline>var x = 10;'' =
     Inl (SyntaxError (Some 2)) \<and>
   parse_config_to_json B d ''\<newline>\<newline>\<newline>var x = 10;'' = Inl (SyntaxError (Some 4))"
  by (simp add: run_defs lex_defs parse_defs subst_defs)

subsection \<open>C10: two calls of parse on one instance\<close>

text \<open>
  Claim C10: \<^verbatim>\<open>parse(t1)\<close> and then \<^verbatim>\<open>parse(t2)\<close> on one instance gives for the second
  call the result of \<^verbatim>\<open>parse(t2)\<close> on a new instance; no binding of the first input is in
  the second result.

  The code does not do this. \<^verbatim>\<open>parse\<close> assigns \<^verbatim>\<open>self.tokens\<close> and \<^verbatim>\<open>self.pos\<close> anew and
  leaves \<^verbatim>\<open>self.variables\<close> and \<^verbatim>\<open>self.current_line\<close> as the call before left them.
  After \<^verbatim>\<open>var a = 1.0;\<close> the call on \<^verbatim>\<open>var b = 2.0;\<close> returns \<open>a\<close> and \<open>b\<close>; on a new
  instance it returns \<open>b\<close> alone.
\<close>

theorem C10_variables_cross_parse_calls:
  "\<exists>st1 st2.
     parse B (Suc d) init ''var a = 1.0;'' =
       Inr ([(''a'', PyFloat (float_of B ''1.0''))], st1) \<and>
     parse B (Suc d) st1 ''var b = 2.0;'' =
       Inr ([(''a'', PyFloat (float_of B ''1.0'')), (''b'', PyFloat (float_of B ''2.0''))], st2) \<and>
     parse_config_to_json B (Suc d) ''var b = 2.0;'' =
       Inr [(''b'', PyFloat (float_of B ''2.0''))]"
  by (simp add: run_defs lex_defs parse_defs subst_defs)

end
